theory Spec2Isabelle
  imports Complex_Main
begin

section \<open>Data model\<close>

text \<open>
  The hook \<open>useSyncScroll\<close> of \<open>resources/js/hooks/use-scroll.tsx\<close> works on DOM
  elements reached through React ref objects. Elements, ref objects and handler closures
  are compared by identity in the source (\<open>targetElement !== sourceElement\<close>,
  \<open>removeEventListener('scroll', scrollHandler)\<close>), so each of them is an address here.
\<close>

type_synonym elem = nat
type_synonym ref = nat
type_synonym hid = nat

text \<open>
  A JavaScript number is a finite value or one of \<open>NaN\<close>, \<open>Infinity\<close>, \<open>-Infinity\<close>.
  Finite values are reals (the rounding of IEEE doubles is not modelled). A division by zero
  does not raise in JavaScript: its result is not finite, and it stays not finite when it is
  multiplied by a finite number.
\<close>

datatype number = Finite real | NonFinite

definition js_div :: "real \<Rightarrow> real \<Rightarrow> number" where
  "js_div a b = (if b = 0 then NonFinite else Finite (a / b))"

fun js_mul :: "number \<Rightarrow> real \<Rightarrow> number" where
  "js_mul (Finite p) r = Finite (p * r)"
| "js_mul NonFinite r = NonFinite"

text \<open>The six properties of an \<open>HTMLElement\<close> that the hook reads or assigns.\<close>

record HTMLElement =
  scrollTop :: real
  scrollLeft :: real
  scrollHeight :: real
  scrollWidth :: real
  clientHeight :: real
  clientWidth :: real

datatype offset = ScrollTop | ScrollLeft

text \<open>
  The options after destructuring with their defaults
  (\<open>const { vertical = true, horizontal = true, proportional = true } = options\<close>).
\<close>

record UseSyncScrollOptions =
  opt_vertical :: "bool option"
  opt_horizontal :: "bool option"
  opt_proportional :: "bool option"

record config =
  vertical :: bool
  horizontal :: bool
  proportional :: bool

definition destructure :: "UseSyncScrollOptions \<Rightarrow> config" where
  "destructure options =
     \<lparr> vertical = (case opt_vertical options of None \<Rightarrow> True | Some b \<Rightarrow> b),
       horizontal = (case opt_horizontal options of None \<Rightarrow> True | Some b \<Rightarrow> b),
       proportional = (case opt_proportional options of None \<Rightarrow> True | Some b \<Rightarrow> b) \<rparr>"

text \<open>
  The state the hook runs in:
  \<^item> \<open>elems\<close>: the DOM elements, by identity;
  \<^item> \<open>current\<close>: \<open>ref.current\<close> of every ref object (\<open>None\<close> is \<open>null\<close>);
  \<^item> \<open>isSyncing\<close>: \<open>isSyncing.current\<close>, the flag of this hook instance;
  \<^item> \<open>timers\<close>: the callbacks queued by \<open>setTimeout(..., 0)\<close> that have not run yet
    (each of them is \<open>() => { isSyncing.current = false }\<close>, so their number is enough);
  \<^item> \<open>listeners\<close>: the \<open>'scroll'\<close> listeners of every element, in the order of their
    registration; \<open>closures\<close>: the \<open>scrollHandler\<close> closures created so far with the
    \<open>refs\<close> and options they captured; \<open>next_closure\<close>: the next fresh identity;
  \<^item> \<open>writes\<close>: every assignment to \<open>scrollTop\<close> or \<open>scrollLeft\<close> made by the hook,
    in order, with the value assigned.
\<close>

record world =
  elems :: "elem \<Rightarrow> HTMLElement"
  current :: "ref \<Rightarrow> elem option"
  isSyncing :: bool
  timers :: nat
  listeners :: "elem \<Rightarrow> hid list"
  closures :: "hid \<Rightarrow> (ref list \<times> config) option"
  next_closure :: hid
  writes :: "(elem \<times> offset \<times> number) list"

section \<open>The hook\<close>

text \<open>
  An assignment \<open>element.scrollTop = v\<close> or \<open>element.scrollLeft = v\<close>. The element keeps the
  value assigned (a value that is not finite is stored as 0, as the DOM does); what the host
  does with an offset beyond the element's range is not part of the hook.
\<close>

fun to_real :: "number \<Rightarrow> real" where
  "to_real (Finite v) = v"
| "to_real NonFinite = 0"

fun store :: "offset \<Rightarrow> number \<Rightarrow> HTMLElement \<Rightarrow> HTMLElement" where
  "store ScrollTop v e = e\<lparr>scrollTop := to_real v\<rparr>"
| "store ScrollLeft v e = e\<lparr>scrollLeft := to_real v\<rparr>"

definition assign :: "elem \<Rightarrow> offset \<Rightarrow> number \<Rightarrow> world \<Rightarrow> world" where
  "assign el p v w =
     w\<lparr>elems := (elems w)(el := store p v (elems w el)), writes := writes w @ [(el, p, v)]\<rparr>"

definition verticalScrollRange :: "HTMLElement \<Rightarrow> real" where
  "verticalScrollRange element = scrollHeight element - clientHeight element"

definition horizontalScrollRange :: "HTMLElement \<Rightarrow> real" where
  "horizontalScrollRange element = scrollWidth element - clientWidth element"

definition getScrollPercentage :: "HTMLElement \<Rightarrow> number \<times> number" where
  "getScrollPercentage element =
     (let verticalPercent =
            (if verticalScrollRange element > 0
             then js_div (scrollTop element) (verticalScrollRange element) else Finite 0);
          horizontalPercent =
            (if horizontalScrollRange element > 0
             then js_div (scrollLeft element) (horizontalScrollRange element) else Finite 0)
      in (verticalPercent, horizontalPercent))"

text \<open>
  \<open>setScrollFromPercentage\<close> reads the four extents of the element before it assigns, and it
  closes over \<open>vertical\<close> and \<open>horizontal\<close>.
\<close>

definition setScrollFromPercentage ::
  "config \<Rightarrow> elem \<Rightarrow> number \<Rightarrow> number \<Rightarrow> world \<Rightarrow> world" where
  "setScrollFromPercentage cfg element verticalPercent horizontalPercent w =
     (let vr = verticalScrollRange (elems w element);
          hr = horizontalScrollRange (elems w element);
          w1 = (if vertical cfg \<and> vr > 0
                then assign element ScrollTop (js_mul verticalPercent vr) w else w);
          w2 = (if horizontal cfg \<and> hr > 0
                then assign element ScrollLeft (js_mul horizontalPercent hr) w1 else w1)
      in w2)"

text \<open>The callback of \<open>refs.forEach\<close> inside \<open>scrollHandler\<close>, for one ref.\<close>

definition sync_ref ::
  "config \<Rightarrow> elem \<Rightarrow> number \<Rightarrow> number \<Rightarrow> ref \<Rightarrow> world \<Rightarrow> world" where
  "sync_ref cfg sourceElement verticalPercent horizontalPercent r w =
     (case current w r of
        None \<Rightarrow> w
      | Some targetElement \<Rightarrow>
          if targetElement \<noteq> sourceElement then
            if proportional cfg then
              setScrollFromPercentage cfg targetElement verticalPercent horizontalPercent w
            else
              (let w1 = (if vertical cfg
                         then assign targetElement ScrollTop
                                (Finite (scrollTop (elems w sourceElement))) w
                         else w);
                   w2 = (if horizontal cfg
                         then assign targetElement ScrollLeft
                                (Finite (scrollLeft (elems w1 sourceElement))) w1
                         else w1)
               in w2)
          else w)"

text \<open>
  \<open>scrollHandler\<close>, with the variables it closes over (\<open>refs\<close> and the options) as its first
  arguments and \<open>e.target\<close> as \<open>sourceElement\<close>. \<open>setTimeout\<close> only queues the release of the
  flag.
\<close>

definition scrollHandler :: "ref list \<Rightarrow> config \<Rightarrow> elem \<Rightarrow> world \<Rightarrow> world" where
  "scrollHandler refs cfg sourceElement w =
     (if isSyncing w then w
      else
        (let w1 = w\<lparr>isSyncing := True\<rparr>;
             (verticalPercent, horizontalPercent) = getScrollPercentage (elems w1 sourceElement);
             w2 = fold (sync_ref cfg sourceElement verticalPercent horizontalPercent) refs w1
         in w2\<lparr>timers := timers w2 + 1\<rparr>))"

text \<open>
  \<open>addEventListener\<close> does not register the same callback twice for one event type;
  \<open>removeEventListener\<close> removes it when it is registered.
\<close>

definition addEventListener :: "elem \<Rightarrow> hid \<Rightarrow> world \<Rightarrow> world" where
  "addEventListener el h w =
     (if h \<in> set (listeners w el) then w
      else w\<lparr>listeners := (listeners w)(el := listeners w el @ [h])\<rparr>)"

definition removeEventListener :: "elem \<Rightarrow> hid \<Rightarrow> world \<Rightarrow> world" where
  "removeEventListener el h w =
     w\<lparr>listeners := (listeners w)(el := removeAll h (listeners w el))\<rparr>"

definition attach :: "hid \<Rightarrow> ref \<Rightarrow> world \<Rightarrow> world" where
  "attach h r w = (case current w r of None \<Rightarrow> w | Some el \<Rightarrow> addEventListener el h w)"

definition detach :: "hid \<Rightarrow> ref \<Rightarrow> world \<Rightarrow> world" where
  "detach h r w = (case current w r of None \<Rightarrow> w | Some el \<Rightarrow> removeEventListener el h w)"

text \<open>
  The body of \<open>useEffect\<close>: with fewer than two refs it returns at once, without a cleanup;
  otherwise it creates the \<open>scrollHandler\<close> closure, registers it on every ref that has an
  element, and returns the cleanup, which is identified by the closure it removes.
\<close>

definition effect :: "ref list \<Rightarrow> config \<Rightarrow> world \<Rightarrow> hid option \<times> world" where
  "effect refs cfg w =
     (if length refs < 2 then (None, w)
      else
        (let h = next_closure w;
             w1 = w\<lparr>closures := (closures w)(h \<mapsto> (refs, cfg)), next_closure := h + 1\<rparr>;
             w2 = fold (attach h) refs w1
         in (Some h, w2)))"

text \<open>The cleanup returned by the effect: it reads \<open>ref.current\<close> when it runs.\<close>

definition cleanup :: "hid \<Rightarrow> world \<Rightarrow> world" where
  "cleanup h w =
     (case closures w h of
        None \<Rightarrow> w
      | Some (refs, cfg) \<Rightarrow> fold (detach h) refs w)"

definition useSyncScroll :: "ref list \<Rightarrow> UseSyncScrollOptions \<Rightarrow> world \<Rightarrow> hid option \<times> world" where
  "useSyncScroll refs options w = effect refs (destructure options) w"

section \<open>The host\<close>

text \<open>
  The host runs one task at a time. It dispatches a scroll event to an element by calling
  the listeners registered on it, in order; it runs a queued timer callback, which releases
  the flag; it changes what a ref points to when an element is mounted or unmounted.
  When it does each of these is the host's choice.
\<close>

datatype task = ScrollEvent elem | Timeout | SetRef ref "elem option"

definition call :: "elem \<Rightarrow> hid \<Rightarrow> world \<Rightarrow> world" where
  "call sourceElement h w =
     (case closures w h of
        None \<Rightarrow> w
      | Some (refs, cfg) \<Rightarrow> scrollHandler refs cfg sourceElement w)"

definition dispatch :: "elem \<Rightarrow> world \<Rightarrow> world" where
  "dispatch el w = fold (call el) (listeners w el) w"

fun step :: "task \<Rightarrow> world \<Rightarrow> world" where
  "step (ScrollEvent el) w = dispatch el w"
| "step Timeout w = (if timers w > 0 then w\<lparr>timers := timers w - 1, isSyncing := False\<rparr> else w)"
| "step (SetRef r v) w = w\<lparr>current := (current w)(r := v)\<rparr>"

definition run :: "task list \<Rightarrow> world \<Rightarrow> world" where
  "run ts w = fold step ts w"

section \<open>The editor page\<close>

text \<open>
  The page component \<open>index\<close> in its version that uses the hook (\<open>src/unnamed/part_001\<close>;
  \<open>resources/js/pages/index.tsx\<close> is the same component with the text state only). Its
  state is the two \<open>useState\<close> cells and the renders that \<open>await marked(...)\<close> has started
  and not yet resumed from; \<open>marked\<close> is the external renderer, a parameter here.
\<close>

definition div1Ref :: ref where
  "div1Ref = 0"

definition div2Ref :: ref where
  "div2Ref = 1"

record index_state =
  text_value :: string
  markedHtml :: string
  awaiting :: "string list"

text \<open>
  \<open>handleChange\<close> up to its \<open>await\<close>: \<open>setValue(event.target.value)\<close> and the call of
  \<open>marked\<close> on the same text. \<open>resume i\<close> is the rest of the function for the \<open>i\<close>-th
  render still awaited: \<open>setMarkedHtml(html)\<close>.
\<close>

definition handleChange :: "(string \<Rightarrow> string) \<Rightarrow> string \<Rightarrow> index_state \<Rightarrow> index_state" where
  "handleChange marked v s = s\<lparr>text_value := v, awaiting := awaiting s @ [marked v]\<rparr>"

definition resume :: "nat \<Rightarrow> index_state \<Rightarrow> index_state" where
  "resume i s =
     (if i < length (awaiting s)
      then s\<lparr>markedHtml := awaiting s ! i,
             awaiting := take i (awaiting s) @ drop (Suc i) (awaiting s)\<rparr>
      else s)"

text \<open>
  What the component renders: the \<open>textarea\<close> carries \<open>div1Ref\<close> and the text, the
  \<open>div\<close> of the preview carries \<open>div2Ref\<close> and the markup.
\<close>

record index_view =
  textarea_ref :: ref
  textarea_value :: string
  div_ref :: ref
  div_innerHTML :: string

definition index_render :: "index_state \<Rightarrow> index_view" where
  "index_render s =
     \<lparr> textarea_ref = div1Ref, textarea_value = text_value s,
       div_ref = div2Ref, div_innerHTML = markedHtml s \<rparr>"

definition index_useSyncScroll :: "world \<Rightarrow> hid option \<times> world" where
  "index_useSyncScroll w =
     useSyncScroll [div1Ref, div2Ref]
       \<lparr> opt_vertical = Some True, opt_horizontal = Some True, opt_proportional = Some True \<rparr> w"

section \<open>A page to evaluate on\<close>

text \<open>
  Two elements behind the two refs of the page. The first has scrolled to the end of its
  vertical range of 50 and to the middle of its horizontal range of 60; the second has a
  vertical range of 200 and a horizontal range of 80. A third element cannot scroll.
\<close>

definition elemA :: HTMLElement where
  "elemA = \<lparr> scrollTop = 50, scrollLeft = 30, scrollHeight = 150, scrollWidth = 160,
             clientHeight = 100, clientWidth = 100 \<rparr>"

definition elemB :: HTMLElement where
  "elemB = \<lparr> scrollTop = 0, scrollLeft = 0, scrollHeight = 300, scrollWidth = 180,
             clientHeight = 100, clientWidth = 100 \<rparr>"

definition elemC :: HTMLElement where
  "elemC = \<lparr> scrollTop = 0, scrollLeft = 0, scrollHeight = 100, scrollWidth = 100,
             clientHeight = 100, clientWidth = 100 \<rparr>"

definition page :: world where
  "page = \<lparr> elems = (\<lambda>el. if el = 10 then elemA else if el = 11 then elemB else elemC),
            current = (\<lambda>r. if r = 0 then Some 10 else if r = 1 then Some 11
                            else if r = 2 then Some 12 else None),
            isSyncing = False, timers = 0, listeners = (\<lambda>el. []),
            closures = (\<lambda>h. None), next_closure = 0, writes = [] \<rparr>"

definition all_on :: config where
  "all_on = \<lparr> vertical = True, horizontal = True, proportional = True \<rparr>"

definition direct_on :: config where
  "direct_on = \<lparr> vertical = True, horizontal = True, proportional = False \<rparr>"

definition vertical_only :: config where
  "vertical_only = \<lparr> vertical = True, horizontal = False, proportional = True \<rparr>"

definition all_off :: config where
  "all_off = \<lparr> vertical = False, horizontal = False, proportional = True \<rparr>"

text \<open>The page after the effect of the hook has run on its two refs.\<close>

definition session :: world where
  "session = snd (effect [div1Ref, div2Ref] all_on page)"

section \<open>Reading the state\<close>

text \<open>
  The assignments made between two states, and the two properties, their ranges and the
  option that enables each of them, by axis.
\<close>

definition written :: "world \<Rightarrow> world \<Rightarrow> (elem \<times> offset \<times> number) list" where
  "written w w' = drop (length (writes w)) (writes w')"

fun offset_of :: "offset \<Rightarrow> HTMLElement \<Rightarrow> real" where
  "offset_of ScrollTop e = scrollTop e"
| "offset_of ScrollLeft e = scrollLeft e"

fun range_of :: "offset \<Rightarrow> HTMLElement \<Rightarrow> real" where
  "range_of ScrollTop e = verticalScrollRange e"
| "range_of ScrollLeft e = horizontalScrollRange e"

fun enabled :: "config \<Rightarrow> offset \<Rightarrow> bool" where
  "enabled cfg ScrollTop = vertical cfg"
| "enabled cfg ScrollLeft = horizontal cfg"

fun percent_of :: "offset \<Rightarrow> number \<times> number \<Rightarrow> number" where
  "percent_of ScrollTop (verticalPercent, horizontalPercent) = verticalPercent"
| "percent_of ScrollLeft (verticalPercent, horizontalPercent) = horizontalPercent"

text \<open>
  The host raises a scroll event on an element when an assignment has changed one of its
  offsets, and delivers it in a later task.
\<close>

definition raises_scroll :: "world \<Rightarrow> world \<Rightarrow> elem \<Rightarrow> bool" where
  "raises_scroll w w' el \<longleftrightarrow>
     el \<in> set (map fst (written w w')) \<and>
     (scrollTop (elems w' el), scrollLeft (elems w' el)) \<noteq>
       (scrollTop (elems w el), scrollLeft (elems w el))"

text \<open>
  One release is queued exactly while the flag is set. A task keeps the refs of a session
  when it does not reassign one of them.
\<close>

definition guard_inv :: "world \<Rightarrow> bool" where
  "guard_inv w \<longleftrightarrow> timers w = (if isSyncing w then 1 else 0)"

fun keeps_refs :: "ref list \<Rightarrow> task \<Rightarrow> bool" where
  "keeps_refs refs (SetRef r v) = (r \<notin> set refs)"
| "keeps_refs refs (ScrollEvent el) = True"
| "keeps_refs refs Timeout = True"

section \<open>The assignments of one pass, for the proofs\<close>

text \<open>
  \<open>ref_writes\<close> lists the assignments the callback of \<open>refs.forEach\<close> makes for one ref,
  \<open>pass_writes\<close> those of the whole loop, and \<open>replay\<close> applies a list of assignments
  to the elements. \<open>scrollHandler_eq\<close> below proves that the handler does exactly that.
\<close>

definition replay :: "(elem \<times> offset \<times> number) list \<Rightarrow> (elem \<Rightarrow> HTMLElement) \<Rightarrow> elem \<Rightarrow> HTMLElement" where
  "replay ns E = fold (\<lambda>(t, p, v) E. E(t := store p v (E t))) ns E"

definition ref_writes ::
  "config \<Rightarrow> elem \<Rightarrow> number \<Rightarrow> number \<Rightarrow> world \<Rightarrow> ref \<Rightarrow> (elem \<times> offset \<times> number) list" where
  "ref_writes cfg src vp hp w r =
     (case current w r of
        None \<Rightarrow> []
      | Some t \<Rightarrow>
          if t = src then []
          else if proportional cfg then
            (if vertical cfg \<and> verticalScrollRange (elems w t) > 0
             then [(t, ScrollTop, js_mul vp (verticalScrollRange (elems w t)))] else []) @
            (if horizontal cfg \<and> horizontalScrollRange (elems w t) > 0
             then [(t, ScrollLeft, js_mul hp (horizontalScrollRange (elems w t)))] else [])
          else
            (if vertical cfg then [(t, ScrollTop, Finite (scrollTop (elems w src)))] else []) @
            (if horizontal cfg then [(t, ScrollLeft, Finite (scrollLeft (elems w src)))] else []))"

definition pass_writes :: "ref list \<Rightarrow> config \<Rightarrow> elem \<Rightarrow> world \<Rightarrow> (elem \<times> offset \<times> number) list" where
  "pass_writes refs cfg src w =
     (let (vp, hp) = getScrollPercentage (elems w src)
      in concat (map (ref_writes cfg src vp hp w) refs))"

definition frame :: "elem \<Rightarrow> world \<Rightarrow> world \<Rightarrow> bool" where
  "frame src w w' \<longleftrightarrow>
     current w' = current w \<and> elems w' src = elems w src \<and>
     (\<forall>t. verticalScrollRange (elems w' t) = verticalScrollRange (elems w t) \<and>
          horizontalScrollRange (elems w' t) = horizontalScrollRange (elems w t))"

section \<open>The pass as a list of assignments\<close>

lemma store_ranges [simp]:
  "verticalScrollRange (store p v e) = verticalScrollRange e"
  "horizontalScrollRange (store p v e) = horizontalScrollRange e"
  by (cases p; simp add: verticalScrollRange_def horizontalScrollRange_def)+

lemma replay_Nil [simp]: "replay [] E = E"
  by (simp add: replay_def)

lemma replay_Cons [simp]: "replay ((t, p, v) # ns) E = replay ns (E(t := store p v (E t)))"
  by (simp add: replay_def)

lemma replay_append [simp]: "replay (ns @ ms) E = replay ms (replay ns E)"
  by (simp add: replay_def)

lemma sync_ref_eq:
  "sync_ref cfg src vp hp r w =
     w\<lparr>elems := replay (ref_writes cfg src vp hp w r) (elems w),
       writes := writes w @ ref_writes cfg src vp hp w r\<rparr>"
  by (simp add: sync_ref_def ref_writes_def setScrollFromPercentage_def assign_def Let_def
      split: option.split)

lemma replay_other: "\<forall>n \<in> set ns. fst n \<noteq> t \<Longrightarrow> replay ns E t = E t"
  by (induction ns arbitrary: E) auto

lemma replay_ranges [simp]:
  "verticalScrollRange (replay ns E t) = verticalScrollRange (E t)"
  "horizontalScrollRange (replay ns E t) = horizontalScrollRange (E t)"
  by (induction ns arbitrary: E; auto)+

lemma ref_writes_not_src: "n \<in> set (ref_writes cfg src vp hp w r) \<Longrightarrow> fst n \<noteq> src"
  by (cases n) (auto simp: ref_writes_def split: option.splits if_splits)

lemma frame_refl: "frame src w w"
  by (simp add: frame_def)

lemma frame_trans: "frame src w w1 \<Longrightarrow> frame src w1 w2 \<Longrightarrow> frame src w w2"
  by (simp add: frame_def)

lemma frame_sync_ref: "frame src w (sync_ref cfg src vp hp r w)"
  using ref_writes_not_src [of _ cfg src vp hp w r]
  by (simp add: frame_def sync_ref_eq replay_other)

lemma ref_writes_frame: "frame src w w' \<Longrightarrow> ref_writes cfg src vp hp w' r = ref_writes cfg src vp hp w r"
  by (simp add: frame_def ref_writes_def split: option.split)

lemma fold_sync_ref_eq:
  "frame src w0 w \<Longrightarrow>
   fold (sync_ref cfg src vp hp) refs w =
     w\<lparr>elems := replay (concat (map (ref_writes cfg src vp hp w0) refs)) (elems w),
       writes := writes w @ concat (map (ref_writes cfg src vp hp w0) refs)\<rparr>"
proof (induction refs arbitrary: w)
  case Nil
  then show ?case by simp
next
  case (Cons r refs)
  have "frame src w0 (sync_ref cfg src vp hp r w)"
    using Cons.prems frame_sync_ref frame_trans by blast
  from Cons.IH [OF this] show ?case
    by (simp add: sync_ref_eq ref_writes_frame [OF Cons.prems])
qed

lemma scrollHandler_eq:
  "scrollHandler refs cfg src w =
     (if isSyncing w then w
      else w\<lparr>elems := replay (pass_writes refs cfg src w) (elems w),
             isSyncing := True,
             timers := timers w + 1,
             writes := writes w @ pass_writes refs cfg src w\<rparr>)"
proof -
  have f: "frame src (w\<lparr>isSyncing := True\<rparr>) (w\<lparr>isSyncing := True\<rparr>)" by (rule frame_refl)
  have r: "ref_writes cfg src vp hp (w\<lparr>isSyncing := True\<rparr>) = ref_writes cfg src vp hp w" for vp hp
    by (rule ext) (simp add: ref_writes_def split: option.split)
  show ?thesis
    by (simp add: scrollHandler_def pass_writes_def Let_def fold_sync_ref_eq [OF f] r split: prod.split)
qed

lemma percent_of_getScrollPercentage:
  "percent_of p (getScrollPercentage e) =
     Finite (if 0 < range_of p e then offset_of p e / range_of p e else 0)"
  by (cases p) (simp_all add: getScrollPercentage_def js_div_def)

lemma in_ref_writes:
  "(t, p, v) \<in> set (ref_writes cfg src vp hp w r) \<longleftrightarrow>
     current w r = Some t \<and> t \<noteq> src \<and> enabled cfg p \<and>
     (if proportional cfg
      then 0 < range_of p (elems w t) \<and> v = js_mul (percent_of p (vp, hp)) (range_of p (elems w t))
      else v = Finite (offset_of p (elems w src)))"
proof (cases "current w r")
  case None
  then show ?thesis by (simp add: ref_writes_def)
next
  case (Some t')
  show ?thesis
  proof (cases "t' = src")
    case True
    with Some show ?thesis by (simp add: ref_writes_def)
  next
    case False
    with Some show ?thesis
      by (cases p; cases "proportional cfg"; simp add: ref_writes_def; blast?)
  qed
qed

lemma in_pass_writes:
  "(t, p, v) \<in> set (pass_writes refs cfg src w) \<longleftrightarrow>
     (\<exists>r \<in> set refs. current w r = Some t) \<and> t \<noteq> src \<and> enabled cfg p \<and>
     (if proportional cfg
      then 0 < range_of p (elems w t) \<and>
           v = Finite ((if 0 < range_of p (elems w src)
                        then offset_of p (elems w src) / range_of p (elems w src) else 0)
                       * range_of p (elems w t))
      else v = Finite (offset_of p (elems w src)))"
proof -
  obtain vp hp where g: "getScrollPercentage (elems w src) = (vp, hp)"
    by (cases "getScrollPercentage (elems w src)")
  have "percent_of p (vp, hp) =
          Finite (if 0 < range_of p (elems w src)
                  then offset_of p (elems w src) / range_of p (elems w src) else 0)"
    using percent_of_getScrollPercentage [of p "elems w src"] by (simp add: g)
  then show ?thesis
    by (auto simp: pass_writes_def g in_ref_writes)
qed

lemma offset_of_store:
  "offset_of p (store q v e) = (if q = p then to_real v else offset_of p e)"
  by (cases p; cases q) simp_all

lemma replay_unwritten:
  "\<forall>v. (t, p, v) \<notin> set ns \<Longrightarrow> offset_of p (replay ns E t) = offset_of p (E t)"
proof (induction ns arbitrary: E)
  case Nil
  then show ?case by simp
next
  case (Cons n ns)
  obtain t' q v where n: "n = (t', q, v)" by (cases n)
  let ?E = "E(t' := store q v (E t'))"
  from Cons.prems have a: "\<forall>v. (t, p, v) \<notin> set ns" and b: "\<not> (t' = t \<and> q = p)"
    by (auto simp: n)
  have "offset_of p (replay ns ?E t) = offset_of p (?E t)"
    using a by (rule Cons.IH)
  also have "\<dots> = offset_of p (E t)"
    using b by (simp add: offset_of_store)
  finally show ?case by (simp add: n)
qed

lemma replay_written:
  "(t, p, v) \<in> set ns \<Longrightarrow> \<forall>v'. (t, p, v') \<in> set ns \<longrightarrow> v' = v \<Longrightarrow>
   offset_of p (replay ns E t) = to_real v"
proof (induction ns arbitrary: E)
  case Nil
  then show ?case by simp
next
  case (Cons n ns)
  obtain t' q u where n: "n = (t', q, u)" by (cases n)
  let ?E = "E(t' := store q u (E t'))"
  have r: "replay (n # ns) E = replay ns ?E"
    unfolding n by (rule replay_Cons)
  have all: "\<forall>v'. (t, p, v') \<in> set ns \<longrightarrow> v' = v"
    using Cons.prems(2) by (metis list.set_intros(2))
  show ?case
  proof (cases "(t, p, v) \<in> set ns")
    case True
    then have "offset_of p (replay ns ?E t) = to_real v"
      using all by (rule Cons.IH)
    then show ?thesis unfolding r .
  next
    case False
    with Cons.prems(1) have "(t, p, v) = (t', q, u)"
      unfolding n by (metis set_ConsD)
    then have e: "t' = t" "q = p" "u = v" by blast+
    from False all have "\<forall>v'. (t, p, v') \<notin> set ns" by blast
    then have "offset_of p (replay ns ?E t) = offset_of p (?E t)"
      by (rule replay_unwritten)
    also have "\<dots> = to_real v"
      unfolding e by (simp add: offset_of_store)
    finally show ?thesis unfolding r .
  qed
qed

lemma written_scrollHandler:
  "written w (scrollHandler refs cfg src w) = (if isSyncing w then [] else pass_writes refs cfg src w)"
  by (simp add: written_def scrollHandler_eq)

lemma elems_scrollHandler:
  "elems (scrollHandler refs cfg src w) =
     (if isSyncing w then elems w else replay (pass_writes refs cfg src w) (elems w))"
  by (simp add: scrollHandler_eq)

section \<open>Handlers and tasks under the flag\<close>

lemma call_guarded: "isSyncing w \<Longrightarrow> call el h w = w"
  by (simp add: call_def scrollHandler_def split: option.split)

lemma fold_call_guarded: "isSyncing w \<Longrightarrow> fold (call el) hs w = w"
  by (induction hs) (simp_all add: call_guarded)

lemma dispatch_guarded: "isSyncing w \<Longrightarrow> dispatch el w = w"
  by (simp add: dispatch_def fold_call_guarded)

lemma run_Nil [simp]: "run [] w = w"
  by (simp add: run_def)

lemma run_Cons [simp]: "run (k # ts) w = run ts (step k w)"
  by (simp add: run_def)

lemma run_append: "run (ts @ us) w = run us (run ts w)"
  by (simp add: run_def)

lemma run_events_guarded: "isSyncing w \<Longrightarrow> run (map ScrollEvent els) w = w"
  by (induction els) (simp_all add: dispatch_guarded)

lemma guard_inv_scrollHandler: "guard_inv w \<Longrightarrow> guard_inv (scrollHandler refs cfg src w)"
  by (simp add: guard_inv_def scrollHandler_eq)

lemma guard_inv_call: "guard_inv w \<Longrightarrow> guard_inv (call el h w)"
  by (simp add: call_def guard_inv_scrollHandler split: option.split)

lemma guard_inv_fold_call: "guard_inv w \<Longrightarrow> guard_inv (fold (call el) hs w)"
  by (induction hs arbitrary: w) (simp_all add: guard_inv_call)

lemma guard_inv_step: "guard_inv w \<Longrightarrow> guard_inv (step k w)"
proof (cases k)
  case (ScrollEvent el)
  assume "guard_inv w"
  then show ?thesis by (simp add: ScrollEvent dispatch_def guard_inv_fold_call)
next
  case Timeout
  assume "guard_inv w"
  then show ?thesis by (simp add: Timeout guard_inv_def split: if_splits)
next
  case (SetRef r v)
  assume "guard_inv w"
  then show ?thesis by (simp add: SetRef guard_inv_def)
qed

lemma guard_inv_run: "guard_inv w \<Longrightarrow> guard_inv (run ts w)"
  by (induction ts arbitrary: w) (simp_all add: guard_inv_step)

section \<open>Listeners: effect and cleanup\<close>

lemma fold_detach:
  "fold (detach h) refs w =
     w\<lparr>listeners := (\<lambda>el. if \<exists>r \<in> set refs. current w r = Some el
                           then removeAll h (listeners w el) else listeners w el)\<rparr>"
proof (induction refs arbitrary: w)
  case Nil
  then show ?case by simp
next
  case (Cons r refs)
  show ?case
  proof (cases "current w r")
    case None
    then have "detach h r w = w" by (simp add: detach_def)
    with Cons.IH [of w] None show ?thesis by (simp add: fun_eq_iff) 
  next
    case (Some el')
    let ?w = "w\<lparr>listeners := (listeners w)(el' := removeAll h (listeners w el'))\<rparr>"
    from Some have d: "detach h r w = ?w"
      by (simp add: detach_def removeEventListener_def)
    have "fold (detach h) (r # refs) w = fold (detach h) refs ?w"
      by (simp add: d)
    also have "\<dots> = ?w\<lparr>listeners := (\<lambda>el. if \<exists>r \<in> set refs. current ?w r = Some el
                           then removeAll h (listeners ?w el) else listeners ?w el)\<rparr>"
      by (rule Cons.IH)
    also have "\<dots> = w\<lparr>listeners := (\<lambda>el. if \<exists>r \<in> set (r # refs). current w r = Some el
                           then removeAll h (listeners w el) else listeners w el)\<rparr>"
      using Some by (auto simp: fun_eq_iff)
    finally show ?thesis .
  qed
qed

lemma cleanup_eq:
  "cleanup h w =
     (case closures w h of
        None \<Rightarrow> w
      | Some (refs, cfg) \<Rightarrow>
          w\<lparr>listeners := (\<lambda>el. if \<exists>r \<in> set refs. current w r = Some el
                                then removeAll h (listeners w el) else listeners w el)\<rparr>)"
  by (simp add: cleanup_def fold_detach split: option.split)

lemma cleanup_idem: "cleanup h (cleanup h w) = cleanup h w"
  by (cases "closures w h") (auto simp: cleanup_eq fun_eq_iff)

lemma attach_frame [simp]:
  "current (attach h r w) = current w" "closures (attach h r w) = closures w"
  by (simp_all add: attach_def addEventListener_def split: option.split)

lemma fold_attach_frame [simp]:
  "current (fold (attach h) refs w) = current w"
  "closures (fold (attach h) refs w) = closures w"
  by (induction refs arbitrary: w) simp_all

lemma in_listeners_attach:
  "h \<in> set (listeners (attach h r w) el) \<longleftrightarrow> h \<in> set (listeners w el) \<or> current w r = Some el"
  by (auto simp: attach_def addEventListener_def split: option.split)

lemma in_listeners_fold_attach:
  "h \<in> set (listeners (fold (attach h) refs w) el) \<longleftrightarrow>
     h \<in> set (listeners w el) \<or> (\<exists>r \<in> set refs. current w r = Some el)"
proof (induction refs arbitrary: w)
  case Nil
  then show ?case by simp
next
  case (Cons r refs)
  have "h \<in> set (listeners (fold (attach h) (r # refs) w) el) \<longleftrightarrow>
          h \<in> set (listeners (attach h r w) el) \<or> (\<exists>r \<in> set refs. current w r = Some el)"
    using Cons.IH [of "attach h r w"] by simp
  then show ?case
    by (auto simp: in_listeners_attach)
qed

lemma effect_established:
  assumes "2 \<le> length refs"
  shows "fst (effect refs cfg w) = Some (next_closure w)"
    and "closures (snd (effect refs cfg w)) (next_closure w) = Some (refs, cfg)"
    and "current (snd (effect refs cfg w)) = current w"
    and "next_closure w \<in> set (listeners (snd (effect refs cfg w)) el) \<longleftrightarrow>
           next_closure w \<in> set (listeners w el) \<or> (\<exists>r \<in> set refs. current w r = Some el)"
  using assms by (simp_all add: effect_def Let_def in_listeners_fold_attach)

lemma scrollHandler_frame [simp]:
  "listeners (scrollHandler refs cfg src w) = listeners w"
  "closures (scrollHandler refs cfg src w) = closures w"
  "current (scrollHandler refs cfg src w) = current w"
  by (simp_all add: scrollHandler_eq)

lemma call_frame [simp]:
  "listeners (call el h w) = listeners w"
  "closures (call el h w) = closures w"
  "current (call el h w) = current w"
  by (simp_all add: call_def split: option.split)

lemma fold_call_frame [simp]:
  "listeners (fold (call el) hs w) = listeners w"
  "closures (fold (call el) hs w) = closures w"
  "current (fold (call el) hs w) = current w"
  by (induction hs arbitrary: w) simp_all

lemma step_frame:
  "listeners (step k w) = listeners w"
  "closures (step k w) = closures w"
  "keeps_refs refs k \<Longrightarrow> r \<in> set refs \<Longrightarrow> current (step k w) r = current w r"
  by (cases k; auto simp: dispatch_def)+

lemma run_frame [simp]:
  "listeners (run ts w) = listeners w"
  "closures (run ts w) = closures w"
  by (induction ts arbitrary: w) (simp_all add: step_frame)

lemma run_current:
  "\<forall>k \<in> set ts. keeps_refs refs k \<Longrightarrow> r \<in> set refs \<Longrightarrow> current (run ts w) r = current w r"
proof (induction ts arbitrary: w)
  case Nil
  then show ?case by simp
next
  case (Cons k ts)
  then have "current (run ts (step k w)) r = current (step k w) r" by simp
  also have "\<dots> = current w r"
    using Cons.prems step_frame(3) [of refs k r w] by simp
  finally show ?case by simp
qed

lemma session_eq:
  "session = page\<lparr>listeners := (\<lambda>el. if el = 10 \<or> el = 11 then [0] else []),
                 closures := (\<lambda>h. if h = 0 then Some ([div1Ref, div2Ref], all_on) else None),
                 next_closure := 1\<rparr>"
  by (auto simp: session_def effect_def attach_def addEventListener_def page_def Let_def
      div1Ref_def div2Ref_def fun_eq_iff)

section \<open>Proportional mode\<close>

text \<open>
  C1. In proportional mode, a pass (a scroll event that finds the flag not set) on the
  source element assigns, to every element that a ref of the session points to and that is
  not the source itself, on every enabled axis on which that element has a positive range,
  the value \<open>percent * range\<close> of the target, where \<open>percent\<close> is the offset of the source
  over its range when that range is positive and 0 otherwise. The source is left out by
  identity: no assignment of the pass is to the source, wherever it stands among the refs.
\<close>

theorem proportional_sync:
  assumes "\<not> isSyncing w" and "proportional cfg"
    and "r \<in> set refs" and "current w r = Some t" and "t \<noteq> src"
    and "enabled cfg p" and "0 < range_of p (elems w t)"
  shows "offset_of p (elems (scrollHandler refs cfg src w) t) =
           (if 0 < range_of p (elems w src)
            then offset_of p (elems w src) / range_of p (elems w src) else 0)
           * range_of p (elems w t)
         \<and> (t, p, Finite ((if 0 < range_of p (elems w src)
                           then offset_of p (elems w src) / range_of p (elems w src) else 0)
                          * range_of p (elems w t)))
             \<in> set (written w (scrollHandler refs cfg src w))
         \<and> (src, q, v) \<notin> set (written w (scrollHandler refs cfg src w))"
proof -
  let ?x = "(if 0 < range_of p (elems w src)
             then offset_of p (elems w src) / range_of p (elems w src) else 0)
            * range_of p (elems w t)"
  have m: "(t, p, Finite ?x) \<in> set (pass_writes refs cfg src w)"
    unfolding in_pass_writes using assms(2-7) by auto
  have u: "\<forall>v'. (t, p, v') \<in> set (pass_writes refs cfg src w) \<longrightarrow> v' = Finite ?x"
    unfolding in_pass_writes using assms(2) by simp
  have "offset_of p (replay (pass_writes refs cfg src w) (elems w) t) = to_real (Finite ?x)"
    using m u by (rule replay_written)
  moreover have "(src, q, v) \<notin> set (pass_writes refs cfg src w)"
    by (simp add: in_pass_writes)
  ultimately show ?thesis
    using m unfolding written_scrollHandler elems_scrollHandler if_not_P [OF assms(1)] to_real.simps
    by blast
qed

theorem proportional_sync_witness:
  "\<not> isSyncing page \<and> proportional all_on \<and> div2Ref \<in> set [div1Ref, div2Ref] \<and>
   current page div2Ref = Some 11 \<and> (11::nat) \<noteq> 10 \<and> enabled all_on ScrollTop \<and>
   range_of ScrollTop (elems page 11) = 200 \<and>
   offset_of ScrollTop (elems (scrollHandler [div1Ref, div2Ref] all_on 10 page) 11) = 200 \<and>
   (11, ScrollTop, Finite 200) \<in> set (written page (scrollHandler [div1Ref, div2Ref] all_on 10 page))"
  using proportional_sync [where w = page and cfg = all_on and r = div2Ref
      and refs = "[div1Ref, div2Ref]" and t = 11 and src = 10 and p = ScrollTop]
  by (simp add: page_def all_on_def div1Ref_def div2Ref_def elemA_def elemB_def
      verticalScrollRange_def)

section \<open>The reentrancy guard\<close>

text \<open>
  What the flag does: a scroll event handled while it is set changes nothing (no assignment,
  no timer queued), also through the dispatch to all the listeners of an element and for
  any sequence of scroll events. A pass leaves the flag set and queues one release, no task
  other than that timer callback clears the flag, and from a state with the flag clear and
  no release queued every run keeps at most one release queued, one exactly while the flag
  is set. So the scroll events that the host delivers before the callback runs are
  discarded. Those it delivers after the callback are not.
\<close>

lemma guard_while_set:
  "(isSyncing g \<longrightarrow>
      scrollHandler refs cfg src g = g \<and> dispatch el g = g \<and>
      run (map ScrollEvent els) g = g \<and> (k \<noteq> Timeout \<longrightarrow> isSyncing (step k g))) \<and>
   (\<not> isSyncing w \<longrightarrow>
      isSyncing (scrollHandler refs cfg src w) \<and>
      timers (scrollHandler refs cfg src w) = timers w + 1 \<and>
      run (map ScrollEvent els @ [Timeout]) (scrollHandler refs cfg src w) =
        (scrollHandler refs cfg src w)\<lparr>timers := timers w, isSyncing := False\<rparr>) \<and>
   (guard_inv w0 \<longrightarrow> guard_inv (run ts w0) \<and> timers (run ts w0) \<le> 1)"
proof -
  have a: "isSyncing (step k g)" if "isSyncing g" and "k \<noteq> Timeout"
    using that by (cases k) (simp_all add: dispatch_guarded)
  have b: "run (map ScrollEvent els @ [Timeout]) (scrollHandler refs cfg src w) =
             (scrollHandler refs cfg src w)\<lparr>timers := timers w, isSyncing := False\<rparr>"
    if "\<not> isSyncing w"
  proof -
    let ?w = "scrollHandler refs cfg src w"
    have s: "isSyncing ?w" and t: "timers ?w = timers w + 1"
      using that by (simp_all add: scrollHandler_eq)
    have "run (map ScrollEvent els @ [Timeout]) ?w = step Timeout ?w"
      by (simp add: run_append run_events_guarded [OF s])
    then show ?thesis by (simp add: t)
  qed
  have c: "timers (run ts w0) \<le> 1" if "guard_inv w0"
    using guard_inv_run [OF that, of ts] by (simp add: guard_inv_def split: if_splits)
  show ?thesis
    using a b c
    by (simp add: dispatch_guarded run_events_guarded guard_inv_run scrollHandler_eq)
qed

text \<open>
  C2. The release is meant to come after the scroll events that the assignments of the pass
  raise (\<open>setTimeout\<close> "prevents the newly set scroll on target elements from immediately
  triggering another scroll event and re-entering this handler"), so that the flag discards
  them. It does not when the host runs the timer callback first, as a host does that fires
  scroll events at its next rendering step. On the page with its session: a scroll event on
  element 10 starts a pass, which changes \<open>scrollTop\<close> of element 11 from 0 to 200, so the
  host raises a scroll event on element 11; the timer callback clears the flag; the event
  on element 11 then starts a second pass, which assigns \<open>scrollTop\<close> of element 10.
  Delivered before the callback, the same event is discarded.
\<close>

theorem echo_after_release:
  "scrollTop (elems session 11) = 0 \<and>
   (11, ScrollTop, Finite 200) \<in> set (written session (run [ScrollEvent 10] session)) \<and>
   scrollTop (elems (run [ScrollEvent 10] session) 11) = 200 \<and>
   raises_scroll session (run [ScrollEvent 10] session) 11 \<and>
   isSyncing (run [ScrollEvent 10] session) \<and>
   \<not> isSyncing (run [ScrollEvent 10, Timeout] session) \<and>
   (10, ScrollTop, Finite 50) \<in>
     set (written (run [ScrollEvent 10, Timeout] session)
           (run [ScrollEvent 10, Timeout, ScrollEvent 11] session)) \<and>
   isSyncing (run [ScrollEvent 10, Timeout, ScrollEvent 11] session) \<and>
   writes (run [ScrollEvent 10, ScrollEvent 11] session) = writes (run [ScrollEvent 10] session)"
  by (simp add: session_eq page_def dispatch_def call_def scrollHandler_def sync_ref_def
      setScrollFromPercentage_def getScrollPercentage_def assign_def written_def js_div_def
      verticalScrollRange_def horizontalScrollRange_def all_on_def div1Ref_def div2Ref_def
      elemA_def elemB_def raises_scroll_def Let_def)

section \<open>Elements that cannot scroll\<close>

text \<open>
  C3. In proportional mode, a scroll event never assigns the offset of an element on an
  axis on which the range of that element is not positive, and that offset stays as it was.
  The percentages computed for a source are never the result of a division by zero, and the
  percentage on an axis is 0 whenever the range of the source on that axis is not positive.
\<close>

theorem zero_range_safety:
  "(proportional cfg \<and> range_of p (elems w t) \<le> 0 \<longrightarrow>
      (t, p, v) \<notin> set (written w (scrollHandler refs cfg src w)) \<and>
      offset_of p (elems (scrollHandler refs cfg src w) t) = offset_of p (elems w t)) \<and>
   percent_of p (getScrollPercentage e) \<noteq> NonFinite \<and>
   (range_of p e \<le> 0 \<longrightarrow> percent_of p (getScrollPercentage e) = Finite 0)"
proof -
  have a: "(t, p, v') \<notin> set (pass_writes refs cfg src w)"
    if "proportional cfg" and "range_of p (elems w t) \<le> 0" for v'
    unfolding in_pass_writes using that by simp
  have b: "offset_of p (replay (pass_writes refs cfg src w) (elems w) t) = offset_of p (elems w t)"
    if "proportional cfg" and "range_of p (elems w t) \<le> 0"
    using a [OF that] by (simp add: replay_unwritten)
  show ?thesis
    using a b by (simp add: written_scrollHandler elems_scrollHandler percent_of_getScrollPercentage)
qed

theorem zero_range_safety_witness:
  "proportional all_on \<and> range_of ScrollTop (elems page 12) \<le> 0 \<and>
   (12, ScrollTop, Finite 0) \<notin> set (written page (scrollHandler [0, 1, 2] all_on 10 page)) \<and>
   offset_of ScrollTop (elems (scrollHandler [0, 1, 2] all_on 10 page) 12) = 0 \<and>
   range_of ScrollTop elemC \<le> 0 \<and>
   percent_of ScrollTop (getScrollPercentage elemC) = Finite 0"
  using zero_range_safety [where cfg = all_on and p = ScrollTop and w = page and t = 12
      and v = "Finite 0" and refs = "[0, 1, 2]" and src = 10 and e = elemC]
  by (simp add: page_def all_on_def elemC_def verticalScrollRange_def)

section \<open>Fewer than two refs\<close>

text \<open>
  C4. With fewer than two refs the effect of the hook does nothing: the state is unchanged
  (no listener is registered, no handler is created), no cleanup is returned, and every
  sequence of tasks runs exactly as it would have run without the call.
\<close>

theorem below_threshold_noop:
  "length refs < 2 \<Longrightarrow>
     effect refs cfg w = (None, w) \<and> useSyncScroll refs options w = (None, w) \<and>
     listeners (snd (useSyncScroll refs options w)) = listeners w \<and>
     run ts (snd (useSyncScroll refs options w)) = run ts w"
  by (simp add: effect_def useSyncScroll_def)

theorem below_threshold_noop_witness:
  "length [div1Ref] < 2 \<and> effect [div1Ref] all_on page = (None, page) \<and>
   listeners (snd (useSyncScroll [div1Ref] \<lparr>opt_vertical = None, opt_horizontal = None,
      opt_proportional = None\<rparr> page)) 10 = [] \<and>
   run [ScrollEvent 10] (snd (useSyncScroll [div1Ref] \<lparr>opt_vertical = None, opt_horizontal = None,
      opt_proportional = None\<rparr> page)) = run [ScrollEvent 10] page"
  using below_threshold_noop [where refs = "[div1Ref]" and cfg = all_on and w = page
      and ts = "[ScrollEvent 10]"
      and options = "\<lparr>opt_vertical = None, opt_horizontal = None, opt_proportional = None\<rparr>"]
  by (simp add: page_def)

section \<open>Direct mode\<close>

text \<open>
  C5. In direct mode, a pass assigns to every element that a ref of the session points to
  and that is not the source, on every enabled axis, exactly the offset of the source on
  that axis, whatever the range of the target: this is the value the pass assigns and the
  value the target has afterwards.
\<close>

theorem direct_sync:
  assumes "\<not> isSyncing w" and "\<not> proportional cfg"
    and "r \<in> set refs" and "current w r = Some t" and "t \<noteq> src" and "enabled cfg p"
  shows "offset_of p (elems (scrollHandler refs cfg src w) t) = offset_of p (elems w src) \<and>
         (t, p, Finite (offset_of p (elems w src))) \<in> set (written w (scrollHandler refs cfg src w)) \<and>
         ((t, p, v) \<in> set (written w (scrollHandler refs cfg src w)) \<longrightarrow>
            v = Finite (offset_of p (elems w src)))"
proof -
  let ?x = "offset_of p (elems w src)"
  have m: "(t, p, Finite ?x) \<in> set (pass_writes refs cfg src w)"
    unfolding in_pass_writes using assms(2-6) by auto
  have u: "\<forall>v'. (t, p, v') \<in> set (pass_writes refs cfg src w) \<longrightarrow> v' = Finite ?x"
    unfolding in_pass_writes using assms(2) by simp
  have "offset_of p (replay (pass_writes refs cfg src w) (elems w) t) = to_real (Finite ?x)"
    using m u by (rule replay_written)
  then show ?thesis
    using m u unfolding written_scrollHandler elems_scrollHandler if_not_P [OF assms(1)] to_real.simps
    by blast
qed

theorem direct_sync_witness:
  "\<not> isSyncing page \<and> \<not> proportional direct_on \<and> (2::nat) \<in> set [0, 1, 2] \<and>
   current page 2 = Some 12 \<and> (12::nat) \<noteq> 10 \<and> enabled direct_on ScrollTop \<and>
   range_of ScrollTop (elems page 12) = 0 \<and>
   offset_of ScrollTop (elems (scrollHandler [0, 1, 2] direct_on 10 page) 12) = 50 \<and>
   (12, ScrollTop, Finite 50) \<in> set (written page (scrollHandler [0, 1, 2] direct_on 10 page))"
  using direct_sync [where w = page and cfg = direct_on and r = 2 and refs = "[0, 1, 2]"
      and t = 12 and src = 10 and p = ScrollTop]
  by (simp add: page_def direct_on_def elemA_def elemC_def verticalScrollRange_def)

section \<open>Release of a session\<close>

text \<open>
  The cleanup reads \<open>ref.current\<close> when it runs. It removes the handler of the session
  from every element that a ref of the session points to at that time, and running it again
  changes nothing; when no ref of the session was reassigned between the effect and the
  cleanup, the handler is registered on no element afterwards.
\<close>

lemma cleanup_detaches_current:
  "(closures w h = Some (refs, cfg) \<and> r \<in> set refs \<and> current w r = Some el \<longrightarrow>
      h \<notin> set (listeners (cleanup h w) el)) \<and>
   cleanup h (cleanup h w) = cleanup h w \<and>
   (2 \<le> length refs \<and> (\<forall>k \<in> set ts. keeps_refs refs k) \<and>
    next_closure w \<notin> set (listeners w el) \<longrightarrow>
      fst (effect refs cfg w) = Some (next_closure w) \<and>
      next_closure w \<notin> set (listeners (cleanup (next_closure w) (run ts (snd (effect refs cfg w)))) el))"
proof -
  have a: "h \<notin> set (listeners (cleanup h w) el)"
    if "closures w h = Some (refs, cfg)" and "r \<in> set refs" and "current w r = Some el"
    using that by (auto simp: cleanup_eq)
  have b: "next_closure w \<notin> set (listeners (cleanup (next_closure w) (run ts (snd (effect refs cfg w)))) el)"
    if l: "2 \<le> length refs" and k: "\<forall>k \<in> set ts. keeps_refs refs k"
      and f: "next_closure w \<notin> set (listeners w el)"
  proof -
    let ?h = "next_closure w" and ?w = "run ts (snd (effect refs cfg w))"
    have c: "closures ?w ?h = Some (refs, cfg)"
      using effect_established(2) [OF l] by simp
    have cur: "current ?w r = current w r" if "r \<in> set refs" for r
      using run_current [OF k that] effect_established(3) [OF l] by simp
    have lis: "?h \<in> set (listeners ?w el) \<longleftrightarrow> (\<exists>r \<in> set refs. current w r = Some el)"
      using effect_established(4) [OF l] f by simp
    show ?thesis
    proof (cases "\<exists>r \<in> set refs. current w r = Some el")
      case True
      then obtain r where "r \<in> set refs" and "current ?w r = Some el"
        using cur by auto
      with c show ?thesis by (auto simp: cleanup_eq)
    next
      case False
      with lis have "?h \<notin> set (listeners ?w el)" by simp
      then show ?thesis using c by (simp add: cleanup_eq)
    qed
  qed
  show ?thesis
    using a b effect_established(1) [of refs cfg w] by (simp add: cleanup_idem del: run_frame)
qed

text \<open>
  C6. The cleanup is there to "clean up event listeners when the component unmounts or
  dependencies change", and its loop mirrors the one that registers them, but it looks the
  elements up again instead of keeping those it registered on. When the refs have been set
  to \<open>null\<close> before it runs, as they are when the page unmounts, it detaches nothing: on
  the page with its session, the handler is registered on elements 10 and 11, both refs
  become \<open>null\<close>, and after the cleanup the handler is still registered on both. With
  the first ref alone set to \<open>null\<close>, it stays registered on element 10.
\<close>

theorem release_after_unmount:
  "fst (effect [div1Ref, div2Ref] all_on page) = Some 0 \<and>
   0 \<in> set (listeners session 10) \<and> 0 \<in> set (listeners session 11) \<and>
   current (run [SetRef div1Ref None, SetRef div2Ref None] session) div1Ref = None \<and>
   current (run [SetRef div1Ref None, SetRef div2Ref None] session) div2Ref = None \<and>
   0 \<in> set (listeners (cleanup 0 (run [SetRef div1Ref None, SetRef div2Ref None] session)) 10) \<and>
   0 \<in> set (listeners (cleanup 0 (run [SetRef div1Ref None, SetRef div2Ref None] session)) 11) \<and>
   0 \<in> set (listeners (cleanup 0 (run [SetRef div1Ref None] session)) 10)"
  by (simp add: session_def effect_def cleanup_def attach_def detach_def addEventListener_def
      removeEventListener_def page_def Let_def div1Ref_def div2Ref_def)

section \<open>The editor page and its session\<close>

text \<open>
  C7. The page calls the hook on exactly two refs, the one of the \<open>textarea\<close> and the
  one of the preview \<open>div\<close>, with all three options true; when both refs point to an
  element, the handler of the session is registered on both. A text change sets the text
  state to the new text and calls the renderer on that text, and when that render is resumed
  its output is the markup state, which is what the preview shows.
\<close>

theorem editor_view:
  "index_useSyncScroll w =
     effect [div1Ref, div2Ref] \<lparr>vertical = True, horizontal = True, proportional = True\<rparr> w \<and>
   length [div1Ref, div2Ref] = 2 \<and> div1Ref \<noteq> div2Ref \<and>
   textarea_ref (index_render s) = div1Ref \<and> div_ref (index_render s) = div2Ref \<and>
   (current w div1Ref = Some a \<and> current w div2Ref = Some b \<longrightarrow>
      fst (index_useSyncScroll w) = Some (next_closure w) \<and>
      closures (snd (index_useSyncScroll w)) (next_closure w) =
        Some ([div1Ref, div2Ref], \<lparr>vertical = True, horizontal = True, proportional = True\<rparr>) \<and>
      next_closure w \<in> set (listeners (snd (index_useSyncScroll w)) a) \<and>
      next_closure w \<in> set (listeners (snd (index_useSyncScroll w)) b)) \<and>
   text_value (handleChange marked v s) = v \<and>
   awaiting (handleChange marked v s) = awaiting s @ [marked v] \<and>
   markedHtml (resume (length (awaiting s)) (handleChange marked v s)) = marked v \<and>
   div_innerHTML (index_render (resume (length (awaiting s)) (handleChange marked v s))) = marked v"
proof -
  let ?cfg = "\<lparr>vertical = True, horizontal = True, proportional = True\<rparr>"
  have e: "index_useSyncScroll w = effect [div1Ref, div2Ref] ?cfg w"
    by (simp add: index_useSyncScroll_def useSyncScroll_def destructure_def)
  have l: "2 \<le> length [div1Ref, div2Ref]" by simp
  have "next_closure w \<in> set (listeners (snd (effect [div1Ref, div2Ref] ?cfg w)) a) \<and>
        next_closure w \<in> set (listeners (snd (effect [div1Ref, div2Ref] ?cfg w)) b)"
    if "current w div1Ref = Some a" and "current w div2Ref = Some b"
    using that effect_established(4) [OF l, where cfg = ?cfg and w = w] by simp
  then show ?thesis
    unfolding e using effect_established(1,2) [OF l, where cfg = ?cfg and w = w]
    by (simp add: div1Ref_def div2Ref_def index_render_def handleChange_def resume_def)
qed

theorem editor_view_witness:
  "current page div1Ref = Some 10 \<and> current page div2Ref = Some 11 \<and>
   fst (index_useSyncScroll page) = Some (next_closure page) \<and>
   next_closure page \<in> set (listeners (snd (index_useSyncScroll page)) 10) \<and>
   next_closure page \<in> set (listeners (snd (index_useSyncScroll page)) 11) \<and>
   markedHtml (resume (length (awaiting \<lparr>text_value = [], markedHtml = [], awaiting = []\<rparr>))
     (handleChange (map (\<lambda>c. CHR ''x'')) ''hi''
        \<lparr>text_value = [], markedHtml = [], awaiting = []\<rparr>)) = ''xx''"
proof -
  have c: "current page div1Ref = Some 10" "current page div2Ref = Some 11"
    by (simp_all add: page_def div1Ref_def div2Ref_def)
  have m: "map (\<lambda>c. CHR ''x'') ''hi'' = ''xx''" by simp
  from c editor_view [where w = page and a = 10 and b = 11 and marked = "map (\<lambda>c. CHR ''x'')"
      and v = "''hi''" and s = "\<lparr>text_value = [], markedHtml = [], awaiting = []\<rparr>"]
  show ?thesis unfolding m by blast
qed

section \<open>Axis gating\<close>

text \<open>
  C8. With \<open>vertical\<close> true and \<open>horizontal\<close> false, in either mode and whatever the
  offsets of the source are, a scroll event leaves the horizontal offset of every element as
  it was and assigns no \<open>scrollLeft\<close>; every assignment it makes is a \<open>scrollTop\<close> of an
  element that a ref of the session points to and that is not the source.
\<close>

theorem axis_gating:
  assumes "vertical cfg" and "\<not> horizontal cfg"
  shows "scrollLeft (elems (scrollHandler refs cfg src w) t) = scrollLeft (elems w t) \<and>
         (t, ScrollLeft, v) \<notin> set (written w (scrollHandler refs cfg src w)) \<and>
         ((t, p, v) \<in> set (written w (scrollHandler refs cfg src w)) \<longrightarrow>
            p = ScrollTop \<and> t \<noteq> src \<and> (\<exists>r \<in> set refs. current w r = Some t))"
proof -
  have a: "(t, ScrollLeft, v') \<notin> set (pass_writes refs cfg src w)" for v'
    unfolding in_pass_writes using assms(2) by simp
  then have "\<forall>v'. (t, ScrollLeft, v') \<notin> set (pass_writes refs cfg src w)" ..
  then have "offset_of ScrollLeft (replay (pass_writes refs cfg src w) (elems w) t)
               = offset_of ScrollLeft (elems w t)"
    by (rule replay_unwritten)
  moreover have "p = ScrollTop \<and> t \<noteq> src \<and> (\<exists>r \<in> set refs. current w r = Some t)"
    if "(t, p, v) \<in> set (pass_writes refs cfg src w)"
    using that assms(2) unfolding in_pass_writes by (cases p) auto
  ultimately show ?thesis
    using a by (simp add: written_scrollHandler elems_scrollHandler)
qed

theorem axis_gating_witness:
  "vertical vertical_only \<and> \<not> horizontal vertical_only \<and>
   scrollLeft (elems page 10) = 30 \<and>
   scrollLeft (elems (scrollHandler [0, 1] vertical_only 10 page) 11) = 0 \<and>
   (11, ScrollLeft, Finite 40) \<notin> set (written page (scrollHandler [0, 1] vertical_only 10 page))"
  using axis_gating [where cfg = vertical_only and refs = "[0, 1]" and src = 10 and w = page
      and t = 11 and v = "Finite 40"]
  by (simp add: page_def vertical_only_def elemA_def elemB_def)

section \<open>Bounds of the proportional assignments\<close>

text \<open>
  C9. In proportional mode, when the offsets of the source lie between 0 and its range on
  both axes, every value that a scroll event assigns is finite and lies between 0 and the
  range of the target on the axis assigned.
\<close>

theorem proportional_bounds:
  assumes "proportional cfg"
    and "\<forall>q. 0 \<le> offset_of q (elems w src) \<and> offset_of q (elems w src) \<le> range_of q (elems w src)"
    and "(t, p, v) \<in> set (written w (scrollHandler refs cfg src w))"
  shows "\<exists>x. v = Finite x \<and> 0 \<le> x \<and> x \<le> range_of p (elems w t)"
proof -
  let ?o = "offset_of p (elems w src)" and ?r = "range_of p (elems w src)"
  let ?R = "range_of p (elems w t)"
  let ?c = "if 0 < ?r then ?o / ?r else 0"
  from assms(3) have m: "(t, p, v) \<in> set (pass_writes refs cfg src w)"
    by (simp add: written_scrollHandler split: if_splits)
  then have R: "0 < ?R" and v: "v = Finite (?c * ?R)"
    unfolding in_pass_writes using assms(1) by simp_all
  from assms(2) have o: "0 \<le> ?o" "?o \<le> ?r" by simp_all
  have c: "0 \<le> ?c \<and> ?c \<le> 1"
    using o by simp
  then have "0 \<le> ?c * ?R" and "?c * ?R \<le> 1 * ?R"
    using R by (simp_all add: mult_right_mono)
  with v show ?thesis by simp
qed

theorem proportional_bounds_witness:
  "proportional all_on \<and>
   0 \<le> offset_of ScrollTop (elems page 10) \<and>
   offset_of ScrollTop (elems page 10) \<le> range_of ScrollTop (elems page 10) \<and>
   0 \<le> offset_of ScrollLeft (elems page 10) \<and>
   offset_of ScrollLeft (elems page 10) \<le> range_of ScrollLeft (elems page 10) \<and>
   (11, ScrollLeft, Finite 40) \<in> set (written page (scrollHandler [0, 1] all_on 10 page)) \<and>
   (0::real) \<le> 40 \<and> 40 \<le> range_of ScrollLeft (elems page 11)"
proof -
  have p: "proportional all_on" by (simp add: all_on_def)
  have s: "\<forall>q. 0 \<le> offset_of q (elems page 10) \<and>
               offset_of q (elems page 10) \<le> range_of q (elems page 10)"
  proof
    fix q show "0 \<le> offset_of q (elems page 10) \<and>
               offset_of q (elems page 10) \<le> range_of q (elems page 10)"
      by (cases q)
        (simp_all add: page_def elemA_def verticalScrollRange_def horizontalScrollRange_def)
  qed
  have m: "(11, ScrollLeft, Finite 40) \<in> set (written page (scrollHandler [0, 1] all_on 10 page))"
    by (simp add: written_scrollHandler in_pass_writes page_def all_on_def elemA_def elemB_def
        horizontalScrollRange_def)
  from proportional_bounds [OF p s m] have "(0::real) \<le> 40 \<and> 40 \<le> range_of ScrollLeft (elems page 11)"
    by auto
  with p m s [rule_format, of ScrollTop] s [rule_format, of ScrollLeft] show ?thesis
    by blast
qed

section \<open>Both axes disabled\<close>

text \<open>
  C10. With \<open>vertical\<close> and \<open>horizontal\<close> both false, in either mode, a scroll event makes
  no assignment: with the flag clear it only sets the flag and queues its release, with the
  flag set it does nothing, and the elements are unchanged.
\<close>

theorem both_axes_disabled:
  assumes "\<not> vertical cfg" and "\<not> horizontal cfg"
  shows "scrollHandler refs cfg src w =
           (if isSyncing w then w else w\<lparr>isSyncing := True, timers := timers w + 1\<rparr>) \<and>
         elems (scrollHandler refs cfg src w) = elems w \<and>
         writes (scrollHandler refs cfg src w) = writes w"
proof -
  have "(t, p, v) \<notin> set (pass_writes refs cfg src w)" for t p v
    unfolding in_pass_writes using assms by (cases p) simp_all
  then have "pass_writes refs cfg src w = []"
    by (cases "pass_writes refs cfg src w") (auto simp del: in_pass_writes)
  then show ?thesis by (simp add: scrollHandler_eq)
qed

theorem both_axes_disabled_witness:
  "\<not> vertical all_off \<and> \<not> horizontal all_off \<and>
   scrollHandler [0, 1] all_off 10 page = page\<lparr>isSyncing := True, timers := 1\<rparr> \<and>
   elems (scrollHandler [0, 1] all_off 10 page) = elems page \<and>
   writes (scrollHandler [0, 1] all_off 10 page) = []"
  using both_axes_disabled [where cfg = all_off and refs = "[0, 1]" and src = 10 and w = page]
  by (simp add: all_off_def page_def)

end
